theory Spec2Isabelle
  imports Main "HOL-Library.Word" "HOL-Library.Sublist"
begin

section \<open>The ChitFund contract (src/src/contracts/chit.sol)\<close>

text \<open>
  The contract is embedded shallowly. Storage is a record that every transaction takes
  and returns; a failed \<open>require\<close> is the left injection of a sum, and a transaction
  that reverts leaves the storage as it was. \<open>uint256\<close> is \<open>256 word\<close> and
  \<open>address\<close> is \<open>160 word\<close>. A Solidity mapping is total: a key that was never
  written reads as the zero value of its type, so the mappings are total functions.
  \<open>createChit\<close> and \<open>joinChit\<close> return nothing: what a call yields is the event it
  emits. The owner that the contract inherits from \<open>Ownable\<close> is read and written by
  none of the functions below and is left out of the storage.
\<close>

subsection \<open>Data\<close>

type_synonym uint256 = "256 word"
type_synonym address = "160 word"

text \<open>\<open>struct Chit\<close>. The field \<open>id\<close> is named \<open>id_chit\<close> here.\<close>

record Chit =
  id_chit :: uint256
  title :: string
  description :: string
  totalAmount :: uint256
  installmentAmount :: uint256
  deadline :: uint256
  createdAt :: uint256
  participantLimit :: uint256
  participants :: "address list"
  isCompleted :: bool

text \<open>The value a \<open>mapping(uint256 => Chit)\<close> holds at a key that was never written.\<close>

definition zero_Chit :: Chit where
  "zero_Chit = \<lparr>id_chit = 0, title = [], description = [], totalAmount = 0,
     installmentAmount = 0, deadline = 0, createdAt = 0, participantLimit = 0,
     participants = [], isCompleted = False\<rparr>"

text \<open>The state variables \<open>chitCounter\<close>, \<open>chits\<close> and \<open>userChits\<close>.\<close>

record ChitFund =
  chitCounter :: uint256
  chits :: "uint256 \<Rightarrow> Chit"
  userChits :: "address \<Rightarrow> uint256 list"

text \<open>The storage of a freshly deployed contract.\<close>

definition deployed :: ChitFund where
  "deployed = \<lparr>chitCounter = 0, chits = (\<lambda>_. zero_Chit), userChits = (\<lambda>_. [])\<rparr>"

text \<open>What a transaction sees of its environment: \<open>msg.sender\<close> and \<open>block.timestamp\<close>.\<close>

record env =
  sender :: address
  timestamp :: uint256

text \<open>The events \<open>ChitCreated\<close> and \<open>JoinedChit\<close>, with their arguments in order.\<close>

datatype event =
  ChitCreated uint256 string uint256 uint256 address
| JoinedChit uint256 address

text \<open>
  One constructor for each \<open>require\<close> message of the contract, and the three panics
  that \<open>getChits\<close> can raise: of checked arithmetic (0x11), of array indexing (0x32)
  and of the allocation of a memory array that is too long (0x41).
\<close>

datatype revert =
  Title_required
| Description_required
| Total_amount_zero
| Installment_amount_zero
| Participant_limit_zero
| Deadline_not_in_future
| Chit_does_not_exist
| Cannot_join_after_deadline
| Chit_is_full
| Already_joined
| Panic_arithmetic
| Panic_index
| Panic_allocation

fun message :: "revert \<Rightarrow> string" where
  "message Title_required = ''Title is required.''"
| "message Description_required = ''Description is required.''"
| "message Total_amount_zero = ''Total amount must be greater than zero.''"
| "message Installment_amount_zero = ''Installment amount must be greater than zero.''"
| "message Participant_limit_zero = ''Participant limit must be greater than zero.''"
| "message Deadline_not_in_future = ''Deadline must be in the future.''"
| "message Chit_does_not_exist = ''Chit does not exist.''"
| "message Cannot_join_after_deadline = ''Cannot join after deadline.''"
| "message Chit_is_full = ''Chit is full.''"
| "message Already_joined = ''Already joined this chit.''"
| "message Panic_arithmetic = ''Panic(0x11)''"
| "message Panic_index = ''Panic(0x32)''"
| "message Panic_allocation = ''Panic(0x41)''"

text \<open>
  The error taxonomy of the specification, and the kind each failure of the contract
  belongs to.
\<close>

datatype pool_error = InvalidInput | InvalidDeadline | NotFound | Expired | Full | AlreadyJoined

fun classify :: "revert \<Rightarrow> pool_error option" where
  "classify Title_required = Some InvalidInput"
| "classify Description_required = Some InvalidInput"
| "classify Total_amount_zero = Some InvalidInput"
| "classify Installment_amount_zero = Some InvalidInput"
| "classify Participant_limit_zero = Some InvalidInput"
| "classify Deadline_not_in_future = Some InvalidDeadline"
| "classify Chit_does_not_exist = Some NotFound"
| "classify Cannot_join_after_deadline = Some Expired"
| "classify Chit_is_full = Some Full"
| "classify Already_joined = Some AlreadyJoined"
| "classify Panic_arithmetic = None"
| "classify Panic_index = None"
| "classify Panic_allocation = None"

text \<open>The kind of failure of a call, if it failed with one the specification names.\<close>

definition fails_with :: "revert + 'a \<Rightarrow> pool_error \<Rightarrow> bool" where
  "fails_with r k = (case r of Inl e \<Rightarrow> classify e = Some k | Inr _ \<Rightarrow> False)"

subsection \<open>The counter\<close>

text \<open>
  Modelled from the spec: the library \<open>Counters\<close> that the contract imports is not among
  the sources. The identifier allocator counts from zero and issues 1, 2, 3, ...; the
  counter is a \<open>uint256\<close> that \<open>increment\<close> advances by one without an overflow check, so
  the addition is the word's.
\<close>

definition increment :: "uint256 \<Rightarrow> uint256" where
  "increment c = c + 1"

definition current :: "uint256 \<Rightarrow> uint256" where
  "current c = c"

subsection \<open>The functions of the contract\<close>

text \<open>
  \<open>_isParticipant\<close>: the loop over \<open>chit.participants\<close>, from index \<open>i\<close> on. The index
  stays below the array's length, so it is a natural number here.
\<close>

function isParticipant_loop :: "address list \<Rightarrow> address \<Rightarrow> nat \<Rightarrow> bool" where
  "isParticipant_loop ps a i =
     (if i < length ps
      then (if ps ! i = a then True else isParticipant_loop ps a (Suc i))
      else False)"
  by pat_completeness auto
termination
  by (relation "measure (\<lambda>(ps, a, i). length ps - i)") auto

declare isParticipant_loop.simps [simp del]

definition isParticipant :: "ChitFund \<Rightarrow> uint256 \<Rightarrow> address \<Rightarrow> bool" where
  "isParticipant s p_chitId p_participant =
     (let chit = chits s p_chitId in isParticipant_loop (participants chit) p_participant 0)"

text \<open>
  \<open>createChit\<close>. The six \<open>require\<close>s in the order of the source, then the writes. The
  record at the new id is written field by field, so \<open>isCompleted\<close> keeps the value it
  had and \<open>push\<close> appends to the array that was there.
\<close>

definition createChit ::
  "env \<Rightarrow> string \<Rightarrow> string \<Rightarrow> uint256 \<Rightarrow> uint256 \<Rightarrow> uint256 \<Rightarrow> uint256 \<Rightarrow> ChitFund
     \<Rightarrow> revert + (ChitFund \<times> event)" where
  "createChit e p_title p_description p_totalAmount p_installmentAmount p_participantLimit
      p_deadline s =
     (if \<not> length p_title > 0 then Inl Title_required
      else if \<not> length p_description > 0 then Inl Description_required
      else if \<not> p_totalAmount > 0 then Inl Total_amount_zero
      else if \<not> p_installmentAmount > 0 then Inl Installment_amount_zero
      else if \<not> p_participantLimit > 0 then Inl Participant_limit_zero
      else if \<not> p_deadline > timestamp e then Inl Deadline_not_in_future
      else
        let s1 = s\<lparr>chitCounter := increment (chitCounter s)\<rparr>;
            newChitId = current (chitCounter s1);
            newChit = (chits s1 newChitId)
              \<lparr>id_chit := newChitId,
               title := p_title,
               description := p_description,
               totalAmount := p_totalAmount,
               installmentAmount := p_installmentAmount,
               deadline := p_deadline,
               createdAt := timestamp e,
               participantLimit := p_participantLimit,
               participants := participants (chits s1 newChitId) @ [sender e]\<rparr>;
            s2 = s1\<lparr>chits := (chits s1)(newChitId := newChit)\<rparr>;
            s3 = s2\<lparr>userChits :=
                    (userChits s2)(sender e := userChits s2 (sender e) @ [newChitId])\<rparr>
        in Inr (s3, ChitCreated newChitId p_title p_totalAmount p_participantLimit (sender e)))"

text \<open>
  \<open>joinChit\<close>. The length of the array is a \<open>uint256\<close> in the source; an array has
  fewer than \<open>2 ^ 256\<close> elements, so the comparison with \<open>participantLimit\<close> is the one
  of the natural numbers.
\<close>

definition joinChit :: "env \<Rightarrow> uint256 \<Rightarrow> ChitFund \<Rightarrow> revert + (ChitFund \<times> event)" where
  "joinChit e p_chitId s =
     (let chit = chits s p_chitId in
      if \<not> id_chit chit \<noteq> 0 then Inl Chit_does_not_exist
      else if \<not> timestamp e < deadline chit then Inl Cannot_join_after_deadline
      else if \<not> length (participants chit) < unat (participantLimit chit) then Inl Chit_is_full
      else if \<not> \<not> isParticipant s p_chitId (sender e) then Inl Already_joined
      else
        let chit' = chit\<lparr>participants := participants chit @ [sender e]\<rparr>;
            s1 = s\<lparr>chits := (chits s)(p_chitId := chit')\<rparr>;
            s2 = s1\<lparr>userChits :=
                    (userChits s1)(sender e := userChits s1 (sender e) @ [p_chitId])\<rparr>
        in Inr (s2, JoinedChit p_chitId (sender e)))"

text \<open>\<open>getParticipants\<close>, a view: it reads the mapping and has no \<open>require\<close>.\<close>

definition getParticipants :: "ChitFund \<Rightarrow> uint256 \<Rightarrow> revert + address list" where
  "getParticipants s p_chitId = (let chit = chits s p_chitId in Inr (participants chit))"

text \<open>
  \<open>getChits\<close>, a view. The loop \<open>for (uint256 i = 1; i <= totalChits; i++)\<close> with the
  checks the compiler adds: \<open>i - 1\<close> must not underflow, the index must be inside the
  array, and \<open>i++\<close> must not overflow.
\<close>

function getChits_loop :: "ChitFund \<Rightarrow> uint256 \<Rightarrow> uint256 \<Rightarrow> Chit list \<Rightarrow> revert + Chit list" where
  "getChits_loop s totalChits i chitList =
     (if i \<le> totalChits then
        (if i < 1 then Inl Panic_arithmetic
         else if \<not> unat (i - 1) < length chitList then Inl Panic_index
         else if i = - 1 then Inl Panic_arithmetic
         else getChits_loop s totalChits (i + 1) (chitList[unat (i - 1) := chits s i]))
      else Inr chitList)"
  by pat_completeness auto
termination
proof (relation "measure (\<lambda>(s, totalChits, i, chitList). Suc (unat totalChits) - unat i)")
  show "wf (measure (\<lambda>(s, totalChits, i, chitList). Suc (unat totalChits) - unat i))"
    by simp
next
  fix s :: ChitFund and totalChits i :: uint256 and chitList :: "Chit list"
  assume le: "i \<le> totalChits" and nm: "i \<noteq> - 1"
  from nm have "1 + i \<noteq> 0"
    by (simp add: add_eq_0_iff)
  then have "unat (1 + i) = Suc (unat i)"
    by (rule unatSuc)
  then have "unat (i + 1) = Suc (unat i)"
    by (simp add: add.commute)
  moreover from le have "unat i \<le> unat totalChits"
    by (simp add: word_le_nat_alt)
  ultimately show "((s, totalChits, i + 1, chitList[unat (i - 1) := chits s i]),
                    (s, totalChits, i, chitList))
        \<in> measure (\<lambda>(s, totalChits, i, chitList). Suc (unat totalChits) - unat i)"
    by simp
qed

declare getChits_loop.simps [simp del]

text \<open>
  The body of \<open>getChits\<close>. \<open>new Chit[](totalChits)\<close> allocates a memory array of
  zero records, and panics when the length asked for is above \<open>2 ^ 64 - 1\<close>.
\<close>

definition getChits :: "ChitFund \<Rightarrow> revert + Chit list" where
  "getChits s =
     (let totalChits = current (chitCounter s) in
      if totalChits > 0xFFFFFFFFFFFFFFFF then Inl Panic_allocation
      else
        let chitList = replicate (unat totalChits) zero_Chit
        in getChits_loop s totalChits 1 chitList)"

subsection \<open>Transactions and runs\<close>

text \<open>A call of one of the two state-changing functions, with its environment.\<close>

datatype call =
  CreateChit env string string uint256 uint256 uint256 uint256
| JoinChit env uint256

fun transact :: "call \<Rightarrow> ChitFund \<Rightarrow> revert + (ChitFund \<times> event)" where
  "transact (CreateChit e t d ta ia pl dl) s = createChit e t d ta ia pl dl s"
| "transact (JoinChit e i) s = joinChit e i s"

text \<open>The storage after a call: a call that reverts changes nothing.\<close>

definition after :: "ChitFund \<Rightarrow> call \<Rightarrow> ChitFund" where
  "after s c = (case transact c s of Inl _ \<Rightarrow> s | Inr (s', _) \<Rightarrow> s')"

text \<open>The events a call emits: none when it reverts.\<close>

definition emitted :: "ChitFund \<Rightarrow> call \<Rightarrow> event list" where
  "emitted s c = (case transact c s of Inl _ \<Rightarrow> [] | Inr (_, ev) \<Rightarrow> [ev])"

text \<open>The storage after a sequence of calls, and the events they emit, in order.\<close>

definition run :: "ChitFund \<Rightarrow> call list \<Rightarrow> ChitFund" where
  "run s cs = foldl after s cs"

fun log :: "ChitFund \<Rightarrow> call list \<Rightarrow> event list" where
  "log s [] = []"
| "log s (c # cs) = emitted s c @ log (after s c) cs"

text \<open>The ids of the \<open>ChitCreated\<close> events of a log: the ids the creations were given.\<close>

fun created_ids :: "event list \<Rightarrow> uint256 list" where
  "created_ids [] = []"
| "created_ids (ChitCreated i _ _ _ _ # evs) = i # created_ids evs"
| "created_ids (JoinedChit _ _ # evs) = created_ids evs"

text \<open>The members a log admits to pool \<open>p\<close>, in order: its creator, then who joined.\<close>

fun members_of :: "uint256 \<Rightarrow> event list \<Rightarrow> address list" where
  "members_of p [] = []"
| "members_of p (ChitCreated i _ _ _ a # evs) = (if i = p then a # members_of p evs else members_of p evs)"
| "members_of p (JoinedChit i a # evs) = (if i = p then a # members_of p evs else members_of p evs)"

text \<open>The number of creations that succeeded in a run from the deployed contract.\<close>

definition creations :: "call list \<Rightarrow> nat" where
  "creations cs = length (created_ids (log deployed cs))"

subsection \<open>Predicates of the properties\<close>

text \<open>Two records agree on every field but \<open>participants\<close>.\<close>

definition same_terms :: "Chit \<Rightarrow> Chit \<Rightarrow> bool" where
  "same_terms c c' =
     (id_chit c' = id_chit c \<and> title c' = title c \<and> description c' = description c \<and>
      totalAmount c' = totalAmount c \<and> installmentAmount c' = installmentAmount c \<and>
      deadline c' = deadline c \<and> createdAt c' = createdAt c \<and>
      participantLimit c' = participantLimit c \<and> isCompleted c' = isCompleted c)"

text \<open>
  The invariant of the storage: the ids from 1 to the counter hold a record that carries
  its own id and a non-empty, duplicate-free array of participants within the limit; every
  other key, 0 among them, was never written.
\<close>

definition well_formed :: "ChitFund \<Rightarrow> bool" where
  "well_formed s = (\<forall>p.
     if 0 < p \<and> p \<le> chitCounter s
     then id_chit (chits s p) = p \<and> participants (chits s p) \<noteq> [] \<and>
          length (participants (chits s p)) \<le> unat (participantLimit (chits s p)) \<and>
          distinct (participants (chits s p))
     else chits s p = zero_Chit)"

subsection \<open>A scenario\<close>

text \<open>
  Three members and a run: alice creates a pool for two with a deadline one hour ahead,
  bob's creation with a deadline in the past fails, bob joins alice's pool, carol finds it
  full, and bob creates a second pool for three.
\<close>

definition alice :: address where
  "alice = 10"

definition bob :: address where
  "bob = 11"

definition carol :: address where
  "carol = 12"

definition late_create :: call where
  "late_create = CreateChit \<lparr>sender = bob, timestamp = 110\<rparr> ''Late'' ''Past'' 1 1 1 50"

definition prologue :: "call list" where
  "prologue =
     [CreateChit \<lparr>sender = alice, timestamp = 100\<rparr> ''Gold'' ''Monthly'' 1000 100 2 3700]"

definition sequel :: "call list" where
  "sequel =
     [late_create,
      JoinChit \<lparr>sender = bob, timestamp = 120\<rparr> 1,
      JoinChit \<lparr>sender = carol, timestamp = 130\<rparr> 1,
      CreateChit \<lparr>sender = bob, timestamp = 140\<rparr> ''Silver'' ''Weekly'' 500 50 3 4000]"

definition demo :: "call list" where
  "demo = prologue @ sequel"

definition gold :: Chit where
  "gold = \<lparr>id_chit = 1, title = ''Gold'', description = ''Monthly'', totalAmount = 1000,
     installmentAmount = 100, deadline = 3700, createdAt = 100, participantLimit = 2,
     participants = [alice, bob], isCompleted = False\<rparr>"

definition silver :: Chit where
  "silver = \<lparr>id_chit = 2, title = ''Silver'', description = ''Weekly'', totalAmount = 500,
     installmentAmount = 50, deadline = 4000, createdAt = 140, participantLimit = 3,
     participants = [bob], isCompleted = False\<rparr>"

section \<open>Proofs\<close>

subsection \<open>The functions, one call at a time\<close>

lemma isParticipant_loop_drop: "isParticipant_loop ps a i = (a \<in> set (drop i ps))"
proof (induction ps a i rule: isParticipant_loop.induct)
  case (1 ps a i)
  show ?case
  proof (cases "i < length ps")
    case True
    then have "drop i ps = ps ! i # drop (Suc i) ps"
      by (simp add: Cons_nth_drop_Suc)
    with 1 True show ?thesis
      by (subst isParticipant_loop.simps) auto
  next
    case False
    then show ?thesis
      by (subst isParticipant_loop.simps) simp
  qed
qed

lemma isParticipant_set: "isParticipant s p a = (a \<in> set (participants (chits s p)))"
  by (simp add: isParticipant_def isParticipant_loop_drop)

lemma createChit_Inr:
  assumes "createChit e t d ta ia pl dl s = Inr (s', ev)"
  shows "t \<noteq> []" and "d \<noteq> []" and "0 < ta" and "0 < ia" and "0 < pl" and "timestamp e < dl"
    and "chitCounter s' = chitCounter s + 1"
    and "chits s' = (chits s)(chitCounter s + 1 := (chits s (chitCounter s + 1))
           \<lparr>id_chit := chitCounter s + 1, title := t, description := d, totalAmount := ta,
            installmentAmount := ia, deadline := dl, createdAt := timestamp e,
            participantLimit := pl,
            participants := participants (chits s (chitCounter s + 1)) @ [sender e]\<rparr>)"
    and "userChits s' = (userChits s)(sender e := userChits s (sender e) @ [chitCounter s + 1])"
    and "ev = ChitCreated (chitCounter s + 1) t ta pl (sender e)"
  using assms
  by (auto simp: createChit_def Let_def increment_def current_def split: if_splits)

lemma joinChit_Inr:
  assumes "joinChit e p s = Inr (s', ev)"
  shows "id_chit (chits s p) \<noteq> 0" and "timestamp e < deadline (chits s p)"
    and "length (participants (chits s p)) < unat (participantLimit (chits s p))"
    and "sender e \<notin> set (participants (chits s p))"
    and "chitCounter s' = chitCounter s"
    and "chits s' = (chits s)(p := (chits s p)\<lparr>participants := participants (chits s p) @ [sender e]\<rparr>)"
    and "userChits s' = (userChits s)(sender e := userChits s (sender e) @ [p])"
    and "ev = JoinedChit p (sender e)"
  using assms
  by (auto simp: joinChit_def Let_def isParticipant_set split: if_splits)

subsection \<open>Runs and their logs\<close>

lemma run_Nil: "run s [] = s"
  by (simp add: run_def)

lemma run_Cons: "run s (c # cs) = run (after s c) cs"
  by (simp add: run_def)

lemma run_append: "run s (cs @ ds) = run (run s cs) ds"
  by (simp add: run_def)

lemma run_snoc: "run s (cs @ [c]) = after (run s cs) c"
  by (simp add: run_def)

lemma log_append: "log s (cs @ ds) = log s cs @ log (run s cs) ds"
  by (induction cs arbitrary: s) (simp_all add: run_Nil run_Cons)

lemma log_snoc: "log s (cs @ [c]) = log s cs @ emitted (run s cs) c"
  by (simp add: log_append)

lemma created_ids_append: "created_ids (xs @ ys) = created_ids xs @ created_ids ys"
  by (induction xs rule: created_ids.induct) simp_all

lemma members_of_append: "members_of p (xs @ ys) = members_of p xs @ members_of p ys"
  by (induction p xs rule: members_of.induct) simp_all

subsection \<open>The invariant, one call at a time\<close>

lemma unat_succ: "(c :: uint256) \<noteq> - 1 \<Longrightarrow> unat (c + 1) = Suc (unat c)"
proof -
  assume "c \<noteq> - 1"
  then have "1 + c \<noteq> 0"
    by (simp add: add_eq_0_iff)
  then have "unat (1 + c) = Suc (unat c)"
    by (rule unatSuc)
  then show ?thesis
    by (simp add: add.commute)
qed

lemma in_range_succ:
  assumes "(c :: uint256) \<noteq> - 1"
  shows "(0 < p \<and> p \<le> c + 1) = ((0 < p \<and> p \<le> c) \<or> p = c + 1)"
proof -
  have "p = c + 1 \<longleftrightarrow> unat p = Suc (unat c)"
    using unat_succ [OF assms] by (metis word_unat_eq_iff)
  then show ?thesis
    using unat_succ [OF assms] by (auto simp: word_le_nat_alt word_less_nat_alt)
qed

lemma well_formed_deployed: "well_formed deployed"
  by (simp add: well_formed_def deployed_def)

lemma zero_Chit_id: "id_chit zero_Chit = 0" "participants zero_Chit = []"
  by (simp_all add: zero_Chit_def)

lemma well_formed_fresh:
  assumes "well_formed s" and "chitCounter s \<noteq> - 1"
  shows "chits s (chitCounter s + 1) = zero_Chit"
proof -
  have "\<not> chitCounter s + 1 \<le> chitCounter s"
    using unat_succ [OF assms(2)] by (simp add: word_le_nat_alt)
  with assms(1) show ?thesis
    unfolding well_formed_def by metis
qed

lemma well_formed_exists:
  assumes "well_formed s" and "id_chit (chits s p) \<noteq> 0"
  shows "0 < p \<and> p \<le> chitCounter s"
  using assms unfolding well_formed_def by (metis zero_Chit_id(1))

lemma well_formed_createChit:
  assumes wf: "well_formed s" and nm: "chitCounter s \<noteq> - 1"
    and ok: "createChit e t d ta ia pl dl s = Inr (s', ev)"
  shows "well_formed s'"
proof -
  note c = createChit_Inr [OF ok]
  let ?n = "chitCounter s + 1"
  have fresh: "chits s ?n = zero_Chit"
    by (rule well_formed_fresh [OF wf nm])
  have pl: "1 \<le> unat pl"
    using c(5) by (simp add: word_less_nat_alt)
  show ?thesis
    unfolding well_formed_def
  proof
    fix p
    show "if 0 < p \<and> p \<le> chitCounter s'
       then id_chit (chits s' p) = p \<and> participants (chits s' p) \<noteq> [] \<and>
            length (participants (chits s' p)) \<le> unat (participantLimit (chits s' p)) \<and>
            distinct (participants (chits s' p))
       else chits s' p = zero_Chit"
    proof (cases "p = ?n")
      case True
      then have "0 < p \<and> p \<le> chitCounter s'"
        using in_range_succ [OF nm, of p] c(7) by simp
      moreover have "chits s' p = (chits s ?n)
           \<lparr>id_chit := ?n, title := t, description := d, totalAmount := ta,
            installmentAmount := ia, deadline := dl, createdAt := timestamp e,
            participantLimit := pl,
            participants := participants (chits s ?n) @ [sender e]\<rparr>"
        using True c(8) by simp
      ultimately show ?thesis
        using True fresh pl by (simp add: zero_Chit_id)
    next
      case False
      then have same: "chits s' p = chits s p"
        using c(8) by simp
      have "(0 < p \<and> p \<le> chitCounter s') = (0 < p \<and> p \<le> chitCounter s)"
        using in_range_succ [OF nm, of p] False c(7) by simp
      with same wf show ?thesis
        unfolding well_formed_def by metis
    qed
  qed
qed

lemma well_formed_joinChit:
  assumes wf: "well_formed s" and ok: "joinChit e q s = Inr (s', ev)"
  shows "well_formed s'"
proof -
  note j = joinChit_Inr [OF ok]
  have q: "0 < q \<and> q \<le> chitCounter s"
    by (rule well_formed_exists [OF wf j(1)])
  show ?thesis
    unfolding well_formed_def
  proof
    fix p
    show "if 0 < p \<and> p \<le> chitCounter s'
       then id_chit (chits s' p) = p \<and> participants (chits s' p) \<noteq> [] \<and>
            length (participants (chits s' p)) \<le> unat (participantLimit (chits s' p)) \<and>
            distinct (participants (chits s' p))
       else chits s' p = zero_Chit"
    proof (cases "p = q")
      case True
      have old: "id_chit (chits s q) = q \<and> distinct (participants (chits s q))"
        using wf q unfolding well_formed_def by metis
      have "chits s' p = (chits s q)\<lparr>participants := participants (chits s q) @ [sender e]\<rparr>"
        using True j(6) by simp
      then show ?thesis
        using True q old j(3,4,5) by simp
    next
      case False
      then have "chits s' p = chits s p"
        using j(6) by simp
      with wf j(5) show ?thesis
        unfolding well_formed_def by metis
    qed
  qed
qed

subsection \<open>The storage and the log of a run\<close>

lemma transact_cases:
  obtains (reverted) err where "transact c s = Inl err" "after s c = s" "emitted s c = []"
  | (created) e t d ta ia pl dl s' ev where "c = CreateChit e t d ta ia pl dl"
      "createChit e t d ta ia pl dl s = Inr (s', ev)" "after s c = s'" "emitted s c = [ev]"
  | (joined) e q s' ev where "c = JoinChit e q"
      "joinChit e q s = Inr (s', ev)" "after s c = s'" "emitted s c = [ev]"
proof (cases "transact c s")
  case (Inl err)
  then show ?thesis
    using reverted by (simp add: after_def emitted_def)
next
  case (Inr r)
  obtain s' ev where r: "r = (s', ev)"
    by (cases r)
  show ?thesis
  proof (cases c)
    case (CreateChit e t d ta ia pl dl)
    with Inr r show ?thesis
      using created by (simp add: after_def emitted_def)
  next
    case (JoinChit e q)
    with Inr r show ?thesis
      using joined by (simp add: after_def emitted_def)
  qed
qed

lemma counter_of_log:
  "chitCounter (run deployed cs) = of_nat (length (created_ids (log deployed cs)))"
proof (induction cs rule: rev_induct)
  case Nil
  show ?case
    by (simp add: run_Nil deployed_def)
next
  case (snoc c cs)
  show ?case
  proof (cases rule: transact_cases [where c = c and s = "run deployed cs"])
    case (reverted err)
    with snoc show ?thesis
      by (simp add: run_snoc log_snoc created_ids_append)
  next
    case (created e t d ta ia pl dl s' ev)
    with snoc createChit_Inr(7,10) [OF created(2)] show ?thesis
      by (simp add: run_snoc log_snoc created_ids_append)
  next
    case (joined e q s' ev)
    with snoc joinChit_Inr(5,8) [OF joined(2)] show ?thesis
      by (simp add: run_snoc log_snoc created_ids_append)
  qed
qed

lemma created_ids_of_log:
  "created_ids (log deployed cs) = map of_nat [1..<Suc (length (created_ids (log deployed cs)))]"
proof (induction cs rule: rev_induct)
  case Nil
  show ?case
    by simp
next
  case (snoc c cs)
  show ?case
  proof (cases rule: transact_cases [where c = c and s = "run deployed cs"])
    case (reverted err)
    with snoc show ?thesis
      by (simp add: log_snoc)
  next
    case (created e t d ta ia pl dl s' ev)
    have "created_ids [ev] = [of_nat (Suc (length (created_ids (log deployed cs))))]"
      using createChit_Inr(10) [OF created(2)] by (simp add: counter_of_log)
    with snoc created(4) show ?thesis
      by (simp add: log_snoc created_ids_append)
  next
    case (joined e q s' ev)
    with snoc joinChit_Inr(8) [OF joined(2)] show ?thesis
      by (simp add: log_snoc created_ids_append)
  qed
qed

lemma creations_snoc_le: "creations cs \<le> creations (cs @ [c])"
  by (simp add: creations_def log_snoc created_ids_append)

lemma unat_of_nat_uint256: "n < 2 ^ 256 \<Longrightarrow> unat (of_nat n :: uint256) = n"
  by (simp add: unat_of_nat)

lemma unat_counter:
  "creations cs < 2 ^ 256 \<Longrightarrow> unat (chitCounter (run deployed cs)) = creations cs"
  by (simp add: counter_of_log creations_def unat_of_nat)

lemma well_formed_run:
  "creations cs < 2 ^ 256 \<Longrightarrow> well_formed (run deployed cs)"
proof (induction cs rule: rev_induct)
  case Nil
  show ?case
    by (simp add: run_Nil well_formed_deployed)
next
  case (snoc c cs)
  have less: "creations cs < 2 ^ 256"
    using snoc.prems creations_snoc_le [of cs c] by simp
  then have wf: "well_formed (run deployed cs)"
    by (rule snoc.IH)
  show ?case
  proof (cases rule: transact_cases [where c = c and s = "run deployed cs"])
    case (reverted err)
    with wf show ?thesis
      by (simp add: run_snoc)
  next
    case (created e t d ta ia pl dl s' ev)
    have "creations (cs @ [c]) = Suc (creations cs)"
      using created(4) createChit_Inr(10) [OF created(2)]
      by (simp add: creations_def log_snoc created_ids_append)
    with snoc.prems have "Suc (unat (chitCounter (run deployed cs))) < 2 ^ 256"
      using unat_counter [OF less] by simp
    then have "chitCounter (run deployed cs) \<noteq> - 1"
      by (auto simp: unsigned_minus_1_eq_mask mask_eq_exp_minus_1)
    from well_formed_createChit [OF wf this created(2)] created(3) show ?thesis
      by (simp add: run_snoc)
  next
    case (joined e q s' ev)
    from well_formed_joinChit [OF wf joined(2)] joined(3) show ?thesis
      by (simp add: run_snoc)
  qed
qed

lemma participants_of_log:
  "participants (chits (run deployed cs) p) = members_of p (log deployed cs)"
proof (induction cs rule: rev_induct)
  case Nil
  show ?case
    by (simp add: run_Nil deployed_def zero_Chit_def)
next
  case (snoc c cs)
  show ?case
  proof (cases rule: transact_cases [where c = c and s = "run deployed cs"])
    case (reverted err)
    with snoc show ?thesis
      by (simp add: run_snoc log_snoc)
  next
    case (created e t d ta ia pl dl s' ev)
    with snoc createChit_Inr(8,10) [OF created(2)] show ?thesis
      by (simp add: run_snoc log_snoc members_of_append)
  next
    case (joined e q s' ev)
    with snoc joinChit_Inr(6,8) [OF joined(2)] show ?thesis
      by (simp add: run_snoc log_snoc members_of_append)
  qed
qed

lemma touched_is_created:
  "id_chit (chits (run deployed cs) p) \<noteq> 0 \<or> participants (chits (run deployed cs) p) \<noteq> []
     \<Longrightarrow> p \<in> set (created_ids (log deployed cs))"
proof (induction cs rule: rev_induct)
  case Nil
  then show ?case
    by (simp add: run_Nil deployed_def zero_Chit_def)
next
  case (snoc c cs)
  show ?case
  proof (cases rule: transact_cases [where c = c and s = "run deployed cs"])
    case (reverted err)
    with snoc show ?thesis
      by (simp add: run_snoc log_snoc)
  next
    case (created e t d ta ia pl dl s' ev)
    note c = createChit_Inr [OF created(2)]
    show ?thesis
    proof (cases "p = chitCounter (run deployed cs) + 1")
      case True
      with created(4) c(10) show ?thesis
        by (simp add: log_snoc created_ids_append)
    next
      case False
      with snoc.prems created(3) c(8)
      have "id_chit (chits (run deployed cs) p) \<noteq> 0 \<or> participants (chits (run deployed cs) p) \<noteq> []"
        by (simp add: run_snoc)
      then have "p \<in> set (created_ids (log deployed cs))"
        by (rule snoc.IH)
      then show ?thesis
        by (simp add: log_snoc created_ids_append)
    qed
  next
    case (joined e q s' ev)
    note j = joinChit_Inr [OF joined(2)]
    have "id_chit (chits (run deployed cs) p) \<noteq> 0 \<or> participants (chits (run deployed cs) p) \<noteq> []"
    proof (cases "p = q")
      case True
      with j(1) show ?thesis
        by simp
    next
      case False
      with snoc.prems joined(3) j(6) show ?thesis
        by (simp add: run_snoc)
    qed
    then have "p \<in> set (created_ids (log deployed cs))"
      by (rule snoc.IH)
    then show ?thesis
      by (simp add: log_snoc created_ids_append)
  qed
qed

lemma index_of_run:
  "p \<in> set (userChits (run deployed cs) m) \<longleftrightarrow> m \<in> set (participants (chits (run deployed cs) p))"
proof (induction cs rule: rev_induct)
  case Nil
  show ?case
    by (simp add: run_Nil deployed_def zero_Chit_def)
next
  case (snoc c cs)
  show ?case
  proof (cases rule: transact_cases [where c = c and s = "run deployed cs"])
    case (reverted err)
    with snoc show ?thesis
      by (simp add: run_snoc)
  next
    case (created e t d ta ia pl dl s' ev)
    with snoc createChit_Inr(8,9) [OF created(2)] show ?thesis
      by (auto simp: run_snoc)
  next
    case (joined e q s' ev)
    with snoc joinChit_Inr(6,7) [OF joined(2)] show ?thesis
      by (auto simp: run_snoc)
  qed
qed

lemma created_set:
  assumes "creations cs < 2 ^ 256"
  shows "p \<in> set (created_ids (log deployed cs)) \<longleftrightarrow> 0 < p \<and> p \<le> chitCounter (run deployed cs)"
proof -
  let ?N = "creations cs"
  have N: "unat (chitCounter (run deployed cs)) = ?N"
    by (rule unat_counter [OF assms])
  have "p \<in> set (created_ids (log deployed cs)) \<longleftrightarrow> p \<in> of_nat ` {1..<Suc ?N}"
    using created_ids_of_log [of cs] by (metis creations_def set_map set_upt)
  also have "\<dots> \<longleftrightarrow> 1 \<le> unat p \<and> unat p \<le> ?N"
  proof
    assume "p \<in> of_nat ` {1..<Suc ?N}"
    then obtain k where k: "p = of_nat k" "1 \<le> k" "k \<le> ?N"
      by auto
    with assms have "unat p = k"
      by (simp add: unat_of_nat)
    with k show "1 \<le> unat p \<and> unat p \<le> ?N"
      by simp
  next
    assume "1 \<le> unat p \<and> unat p \<le> ?N"
    moreover have "p = of_nat (unat p)"
      by simp
    ultimately show "p \<in> of_nat ` {1..<Suc ?N}"
      by (metis atLeastLessThan_iff image_eqI less_Suc_eq_le)
  qed
  also have "\<dots> \<longleftrightarrow> 0 < p \<and> p \<le> chitCounter (run deployed cs)"
    using N by (auto simp: word_le_nat_alt word_less_nat_alt)
  finally show ?thesis .
qed

subsection \<open>The loop of \<open>getChits\<close>\<close>

lemma take_Suc_update: "j < length l \<Longrightarrow> take (Suc j) (l[j := x]) = take j l @ [x]"
  by (simp add: take_Suc_conv_app_nth)

lemma getChits_loop_result:
  assumes "totalChits \<noteq> - 1" and "length chitList = unat totalChits"
    and "1 \<le> unat i" and "unat i \<le> Suc (unat totalChits)"
  shows "getChits_loop s totalChits i chitList =
     Inr (take (unat i - 1) chitList @ map (\<lambda>k. chits s (of_nat k)) [unat i..<Suc (unat totalChits)])"
  using assms
proof (induction s totalChits i chitList rule: getChits_loop.induct)
  case (1 s totalChits i chitList)
  show ?case
  proof (cases "i \<le> totalChits")
    case True
    then have le: "unat i \<le> unat totalChits"
      by (simp add: word_le_nat_alt)
    have ge: "\<not> i < 1"
      using "1.prems"(3) by (simp add: word_less_nat_alt)
    have "i \<noteq> 0"
      using "1.prems"(3) by auto
    then have pred: "unat (i - 1) = unat i - 1"
      by (rule unat_minus_one)
    with le "1.prems"(2,3) have inside: "unat (i - 1) < length chitList"
      by simp
    have nm: "i \<noteq> - 1"
      using True "1.prems"(1) by (metis word_order.extremum_uniqueI)
    have succ: "unat (i + 1) = Suc (unat i)"
      by (rule unat_succ [OF nm])
    have "getChits_loop s totalChits (i + 1) (chitList[unat (i - 1) := chits s i]) =
        Inr (take (unat (i + 1) - 1) (chitList[unat (i - 1) := chits s i]) @
             map (\<lambda>k. chits s (of_nat k)) [unat (i + 1)..<Suc (unat totalChits)])"
      using True ge inside nm "1.prems"(1,2) le succ
      by (intro "1.IH") simp_all
    moreover have "take (unat (i + 1) - 1) (chitList[unat (i - 1) := chits s i]) =
        take (unat i - 1) chitList @ [chits s i]"
      using take_Suc_update [of "unat i - 1" chitList "chits s i"] inside pred succ "1.prems"(3)
      by simp
    moreover have "[unat i..<Suc (unat totalChits)] = unat i # [unat (i + 1)..<Suc (unat totalChits)]"
      using le succ by (simp add: upt_conv_Cons)
    ultimately show ?thesis
      using True ge inside nm by (subst getChits_loop.simps) simp
  next
    case False
    then have "unat i = Suc (unat totalChits)"
      using "1.prems"(4) by (simp add: word_le_nat_alt)
    with False "1.prems"(2) show ?thesis
      by (subst getChits_loop.simps) simp
  qed
qed

lemma allocation_limit: "unat (0xFFFFFFFFFFFFFFFF :: uint256) = 2 ^ 64 - 1"
  by simp

lemma getChits_result:
  assumes "unat (chitCounter s) < 2 ^ 64"
  shows "getChits s = Inr (map (\<lambda>k. chits s (of_nat k)) [1..<Suc (unat (chitCounter s))])"
proof -
  let ?l = "replicate (unat (chitCounter s)) zero_Chit"
  have fits: "\<not> chitCounter s > 0xFFFFFFFFFFFFFFFF"
    using assms unfolding word_less_nat_alt allocation_limit by simp
  have "unat (chitCounter s) \<noteq> unat (- 1 :: uint256)"
    using assms by (simp add: unsigned_minus_1_eq_mask mask_eq_exp_minus_1)
  then have nm: "chitCounter s \<noteq> - 1"
    by auto
  have "getChits s = getChits_loop s (chitCounter s) 1 ?l"
    using fits by (simp add: getChits_def current_def Let_def)
  also have "\<dots> = Inr (take (unat (1 :: uint256) - 1) ?l @
      map (\<lambda>k. chits s (of_nat k)) [unat (1 :: uint256)..<Suc (unat (chitCounter s))])"
    using nm by (intro getChits_loop_result) simp_all
  also have "\<dots> = Inr (map (\<lambda>k. chits s (of_nat k)) [1..<Suc (unat (chitCounter s))])"
    by simp
  finally show ?thesis .
qed

lemma getChits_too_long:
  assumes "2 ^ 64 \<le> unat (chitCounter s)"
  shows "getChits s = Inl Panic_allocation"
proof -
  have "chitCounter s > 0xFFFFFFFFFFFFFFFF"
    using assms unfolding word_less_nat_alt allocation_limit by simp
  then show ?thesis
    by (simp add: getChits_def current_def Let_def)
qed

subsection \<open>The scenario, evaluated\<close>

lemmas demo_defs = demo_def prologue_def sequel_def late_create_def alice_def bob_def carol_def run_def after_def
  emitted_def createChit_def joinChit_def deployed_def Let_def increment_def current_def
  zero_Chit_def isParticipant_def isParticipant_loop.simps

lemma demo_log:
  "log deployed demo =
     [ChitCreated 1 ''Gold'' 1000 2 alice, JoinedChit 1 bob, ChitCreated 2 ''Silver'' 500 3 bob]"
  by (simp add: demo_defs)

lemma demo_counter: "chitCounter (run deployed demo) = 2"
  by (simp add: demo_defs)

lemma demo_gold: "chits (run deployed demo) 1 = gold"
  by (simp add: demo_defs gold_def)

lemma demo_silver: "chits (run deployed demo) 2 = silver"
  by (simp add: demo_defs silver_def)

lemma demo_unwritten: "chits (run deployed demo) 7 = zero_Chit"
  by (simp add: demo_defs)

lemma demo_creations: "creations demo = 2"
  by (simp add: creations_def demo_log)

lemma prologue_log: "log deployed prologue = [ChitCreated 1 ''Gold'' 1000 2 alice]"
  by (simp add: demo_defs)

lemma prologue_gold: "chits (run deployed prologue) 1 = gold\<lparr>participants := [alice]\<rparr>"
  by (simp add: demo_defs gold_def)

subsection \<open>What a run leaves as it was\<close>

lemma creations_snoc_created:
  assumes "createChit e t d ta ia pl dl (run deployed cs) = Inr (s', ev)"
  shows "creations (cs @ [CreateChit e t d ta ia pl dl]) = Suc (creations cs)"
  using assms createChit_Inr(10) [OF assms]
  by (simp add: creations_def log_snoc created_ids_append emitted_def)

lemma counter_not_max:
  assumes "Suc (creations cs) < 2 ^ 256"
  shows "chitCounter (run deployed cs) \<noteq> - 1"
proof -
  have "creations cs < 2 ^ 256"
    using assms by simp
  then have "unat (chitCounter (run deployed cs)) = creations cs"
    by (rule unat_counter)
  with assms show ?thesis
    by (auto simp: unsigned_minus_1_eq_mask mask_eq_exp_minus_1)
qed

lemma frame_createChit:
  assumes wf: "well_formed s" and nm: "chitCounter s \<noteq> - 1"
    and ok: "createChit e t d ta ia pl dl s = Inr (s', ev)"
    and ex: "id_chit (chits s p) \<noteq> 0"
  shows "chits s' p = chits s p"
proof -
  have "chits s (chitCounter s + 1) = zero_Chit"
    by (rule well_formed_fresh [OF wf nm])
  with ex have "p \<noteq> chitCounter s + 1"
    by (auto simp: zero_Chit_id)
  with createChit_Inr(8) [OF ok] show ?thesis
    by simp
qed

lemma frame_joinChit:
  assumes "joinChit e q s = Inr (s', ev)"
  shows "chits s' p = (if p = q
     then (chits s p)\<lparr>participants := participants (chits s p) @ [sender e]\<rparr>
     else chits s p)"
  using joinChit_Inr(6) [OF assms] by simp

lemma same_terms_refl: "same_terms c c"
  by (simp add: same_terms_def)

lemma frame_run:
  assumes "creations (cs @ ds) < 2 ^ 256" and "id_chit (chits (run deployed cs) p) \<noteq> 0"
  shows "same_terms (chits (run deployed cs) p) (chits (run deployed (cs @ ds)) p) \<and>
         prefix (participants (chits (run deployed cs) p))
                (participants (chits (run deployed (cs @ ds)) p))"
  using assms(1)
proof (induction ds rule: rev_induct)
  case Nil
  show ?case
    by (simp add: same_terms_refl)
next
  case (snoc c ds)
  let ?r = "run deployed cs" and ?s = "run deployed (cs @ ds)"
  have less: "creations (cs @ ds) < 2 ^ 256"
    using snoc.prems creations_snoc_le [of "cs @ ds" c] by simp
  then have wf: "well_formed ?s"
    by (rule well_formed_run)
  from snoc.IH [OF less] have ih: "same_terms (chits ?r p) (chits ?s p)"
    "prefix (participants (chits ?r p)) (participants (chits ?s p))"
    by simp_all
  from ih(1) assms(2) have ex: "id_chit (chits ?s p) \<noteq> 0"
    by (simp add: same_terms_def)
  have run: "run deployed (cs @ ds @ [c]) = after ?s c"
    using run_snoc [of deployed "cs @ ds" c] by simp
  show ?case
  proof (cases rule: transact_cases [where c = c and s = ?s])
    case (reverted err)
    with ih run show ?thesis
      by simp
  next
    case (created e t d ta ia pl dl s' ev)
    have "creations ((cs @ ds) @ [c]) = Suc (creations (cs @ ds))"
      unfolding created(1) by (rule creations_snoc_created [OF created(2)])
    with snoc.prems have "chitCounter ?s \<noteq> - 1"
      by (intro counter_not_max) simp
    from frame_createChit [OF wf this created(2) ex] created(3) ih run show ?thesis
      by simp
  next
    case (joined e q s' ev)
    have "chits s' p = (if p = q
       then (chits ?s p)\<lparr>participants := participants (chits ?s p) @ [sender e]\<rparr>
       else chits ?s p)"
      by (rule frame_joinChit [OF joined(2)])
    with joined(3) ih run show ?thesis
      by (auto simp: same_terms_def)
  qed
qed

lemma creator_first:
  assumes "creations cs < 2 ^ 256" and "ChitCreated p t ta pl a \<in> set (log deployed cs)"
  shows "\<exists>rest. members_of p (log deployed cs) = a # rest"
  using assms
proof (induction cs rule: rev_induct)
  case Nil
  then show ?case
    by simp
next
  case (snoc c cs)
  let ?s = "run deployed cs"
  have less: "creations cs < 2 ^ 256"
    using snoc.prems(1) creations_snoc_le [of cs c] by simp
  have old: "\<exists>rest. members_of p (log deployed (cs @ [c])) = a # rest"
    if "ChitCreated p t ta pl a \<in> set (log deployed cs)"
    using snoc.IH [OF less that] by (auto simp: log_snoc members_of_append)
  show ?case
  proof (cases rule: transact_cases [where c = c and s = ?s])
    case (reverted err)
    with snoc.prems(2) old show ?thesis
      by (simp add: log_snoc)
  next
    case (created e t' d ta' ia pl' dl s' ev)
    note c = createChit_Inr [OF created(2)]
    show ?thesis
    proof (cases "ChitCreated p t ta pl a \<in> set (log deployed cs)")
      case True
      then show ?thesis
        by (rule old)
    next
      case False
      with snoc.prems(2) created(4) have ev: "ev = ChitCreated p t ta pl a"
        by (simp add: log_snoc)
      with c(10) have p: "p = chitCounter ?s + 1" and a: "a = sender e"
        by simp_all
      have "creations (cs @ [c]) = Suc (creations cs)"
        unfolding created(1) by (rule creations_snoc_created [OF created(2)])
      with snoc.prems(1) have "chitCounter ?s \<noteq> - 1"
        by (intro counter_not_max) simp
      with well_formed_run [OF less] have "chits ?s p = zero_Chit"
        unfolding p by (rule well_formed_fresh)
      then have "members_of p (log deployed cs) = []"
        using participants_of_log [of cs p] by (simp add: zero_Chit_id)
      with created(4) ev show ?thesis
        by (simp add: log_snoc members_of_append)
    qed
  next
    case (joined e q s' ev)
    with snoc.prems(2) joinChit_Inr(8) [OF joined(2)] old show ?thesis
      by (simp add: log_snoc)
  qed
qed

subsection \<open>Consequences of the invariant\<close>

lemma well_formed_bounds:
  assumes "well_formed s"
  shows "length (participants (chits s p)) \<le> unat (participantLimit (chits s p))"
    and "distinct (participants (chits s p))"
proof -
  have "chits s p = zero_Chit \<or>
      (length (participants (chits s p)) \<le> unat (participantLimit (chits s p)) \<and>
       distinct (participants (chits s p)))"
    using assms unfolding well_formed_def by metis
  then show "length (participants (chits s p)) \<le> unat (participantLimit (chits s p))"
    and "distinct (participants (chits s p))"
    by (auto simp: zero_Chit_def)
qed

lemma well_formed_id:
  assumes "well_formed s" and "0 < p" and "p \<le> chitCounter s"
  shows "id_chit (chits s p) = p"
  using assms unfolding well_formed_def by metis

lemma well_formed_zero:
  assumes "well_formed s"
  shows "chits s 0 = zero_Chit"
  using assms unfolding well_formed_def by (metis less_irrefl)

lemma exists_iff_created:
  assumes "creations cs < 2 ^ 256"
  shows "id_chit (chits (run deployed cs) p) \<noteq> 0 \<longleftrightarrow> p \<in> set (created_ids (log deployed cs))"
proof
  assume "id_chit (chits (run deployed cs) p) \<noteq> 0"
  then show "p \<in> set (created_ids (log deployed cs))"
    by (simp add: touched_is_created)
next
  assume "p \<in> set (created_ids (log deployed cs))"
  then have p: "0 < p" "p \<le> chitCounter (run deployed cs)"
    using created_set [OF assms, of p] by simp_all
  with well_formed_run [OF assms] have "id_chit (chits (run deployed cs) p) = p"
    by (rule well_formed_id)
  with p(1) show "id_chit (chits (run deployed cs) p) \<noteq> 0"
    by simp
qed

lemma created_ids_of_ChitCreated:
  "ChitCreated p t ta pl a \<in> set evs \<Longrightarrow> p \<in> set (created_ids evs)"
  by (induction evs rule: created_ids.induct) auto

lemma unat_created_ids:
  assumes "creations cs < 2 ^ 256"
  shows "map unat (created_ids (log deployed cs)) = [1..<Suc (creations cs)]"
proof -
  have "map unat (created_ids (log deployed cs)) =
      map unat (map (of_nat :: nat \<Rightarrow> uint256) [1..<Suc (creations cs)])"
    using created_ids_of_log [of cs] by (simp add: creations_def)
  also have "\<dots> = map (\<lambda>k. k) [1..<Suc (creations cs)]"
    unfolding map_map
  proof (rule map_cong [OF refl])
    fix k
    assume "k \<in> set [1..<Suc (creations cs)]"
    then have "k \<le> creations cs"
      by auto
    from this assms have "k < 2 ^ 256"
      by (rule le_less_trans)
    then show "(unat \<circ> (of_nat :: nat \<Rightarrow> uint256)) k = k"
      by (simp add: unat_of_nat)
  qed
  finally show ?thesis
    by simp
qed

lemma createChit_valid:
  assumes "t \<noteq> []" and "d \<noteq> []" and "0 < ta" and "0 < ia" and "0 < pl" and "timestamp e < dl"
  shows "\<exists>s'. createChit e t d ta ia pl dl s =
           Inr (s', ChitCreated (chitCounter s + 1) t ta pl (sender e)) \<and>
         chitCounter s' = chitCounter s + 1 \<and>
         chits s' (chitCounter s + 1) = (chits s (chitCounter s + 1))
           \<lparr>id_chit := chitCounter s + 1, title := t, description := d, totalAmount := ta,
            installmentAmount := ia, deadline := dl, createdAt := timestamp e,
            participantLimit := pl,
            participants := participants (chits s (chitCounter s + 1)) @ [sender e]\<rparr> \<and>
         userChits s' (sender e) = userChits s (sender e) @ [chitCounter s + 1]"
  using assms by (simp add: createChit_def Let_def increment_def current_def)

lemma joinChit_fails_with:
  "fails_with (joinChit e p s) k \<longleftrightarrow>
     (k = NotFound \<and> id_chit (chits s p) = 0) \<or>
     (k = Expired \<and> id_chit (chits s p) \<noteq> 0 \<and> deadline (chits s p) \<le> timestamp e) \<or>
     (k = Full \<and> id_chit (chits s p) \<noteq> 0 \<and> timestamp e < deadline (chits s p) \<and>
        unat (participantLimit (chits s p)) \<le> length (participants (chits s p))) \<or>
     (k = AlreadyJoined \<and> id_chit (chits s p) \<noteq> 0 \<and> timestamp e < deadline (chits s p) \<and>
        length (participants (chits s p)) < unat (participantLimit (chits s p)) \<and>
        sender e \<in> set (participants (chits s p)))"
  by (auto simp: joinChit_def fails_with_def Let_def isParticipant_set not_less not_le)

section \<open>The claims\<close>

text \<open>
  C1, as the contract has it. \<open>getParticipants\<close> never fails: it returns the array stored
  under the id, which holds the pool's creator and then the members that joined, in the
  order of their transactions; for an id that no creation was given, the array is empty.
  It is a view: it returns no storage.
\<close>

theorem getParticipants_never_fails:
  "getParticipants (run deployed cs) p = Inr (participants (chits (run deployed cs) p)) \<and>
   participants (chits (run deployed cs) p) = members_of p (log deployed cs) \<and>
   (p \<notin> set (created_ids (log deployed cs)) \<longrightarrow> getParticipants (run deployed cs) p = Inr [])"
proof -
  have "participants (chits (run deployed cs) p) = []"
    if "p \<notin> set (created_ids (log deployed cs))"
    using that touched_is_created [of cs p] by blast
  then show ?thesis
    by (simp add: getParticipants_def participants_of_log)
qed

theorem getParticipants_never_fails_witness:
  "7 \<notin> set (created_ids (log deployed demo)) \<and>
   getParticipants (run deployed demo) 7 = Inr [] \<and>
   getParticipants (run deployed demo) 1 = Inr [alice, bob]"
  using getParticipants_never_fails [where cs = demo and p = 7]
    getParticipants_never_fails [where cs = demo and p = 1]
  by (simp add: demo_log)

text \<open>
  C1, as the claim has it, fails: the id 7 was never allocated in the scenario, and
  \<open>getParticipants\<close> returns the empty array for it instead of failing with \<open>NotFound\<close>.
\<close>

theorem getParticipants_unknown_counterexample:
  "7 \<notin> set (created_ids (log deployed demo)) \<and>
   getParticipants (run deployed demo) 7 = Inr [] \<and>
   \<not> fails_with (getParticipants (run deployed demo) 7) NotFound"
  by (simp add: getParticipants_def demo_log demo_unwritten zero_Chit_def fails_with_def)

text \<open>
  C2. \<open>joinChit\<close> tests existence, then the deadline, then the capacity, then duplicate
  membership: a join fails with \<open>NotFound\<close> when the record has id 0; with \<open>Expired\<close>
  when it exists and the time is at or after the deadline, whatever the capacity; with
  \<open>Full\<close> when it exists, is open and is at capacity; and with \<open>AlreadyJoined\<close> only
  when the three earlier tests pass and the sender is among the participants.
\<close>

theorem joinChit_check_order:
  "fails_with (joinChit e p s) k \<longleftrightarrow>
     (k = NotFound \<and> id_chit (chits s p) = 0) \<or>
     (k = Expired \<and> id_chit (chits s p) \<noteq> 0 \<and> deadline (chits s p) \<le> timestamp e) \<or>
     (k = Full \<and> id_chit (chits s p) \<noteq> 0 \<and> timestamp e < deadline (chits s p) \<and>
        unat (participantLimit (chits s p)) \<le> length (participants (chits s p))) \<or>
     (k = AlreadyJoined \<and> id_chit (chits s p) \<noteq> 0 \<and> timestamp e < deadline (chits s p) \<and>
        length (participants (chits s p)) < unat (participantLimit (chits s p)) \<and>
        sender e \<in> set (participants (chits s p)))"
  by (rule joinChit_fails_with)

text \<open>
  The pool of alice is full, and a join after its deadline fails with \<open>Expired\<close>, not
  with \<open>Full\<close>.
\<close>

theorem joinChit_check_order_witness:
  "unat (participantLimit (chits (run deployed demo) 1))
     \<le> length (participants (chits (run deployed demo) 1)) \<and>
   deadline (chits (run deployed demo) 1) \<le> 5000 \<and>
   fails_with (joinChit \<lparr>sender = carol, timestamp = 5000\<rparr> 1 (run deployed demo)) Expired \<and>
   \<not> fails_with (joinChit \<lparr>sender = carol, timestamp = 5000\<rparr> 1 (run deployed demo)) Full"
  using joinChit_check_order [where e = "\<lparr>sender = carol, timestamp = 5000\<rparr>" and p = 1
      and s = "run deployed demo" and k = Expired]
    joinChit_check_order [where e = "\<lparr>sender = carol, timestamp = 5000\<rparr>" and p = 1
      and s = "run deployed demo" and k = Full]
  by (simp add: demo_gold gold_def)

text \<open>
  C3. In a run with fewer than \<open>2 ^ 256\<close> successful creations, the ids given to the
  successful creations (the ids of their \<open>ChitCreated\<close> events) are 1, 2, 3, ... in the
  order of the calls, whatever calls failed in between, and the counter holds their
  number; a creation that fails leaves the storage, the counter in it, and the ids given
  so far as they were.
\<close>

theorem created_ids_consecutive:
  assumes "creations cs < 2 ^ 256"
  shows "map unat (created_ids (log deployed cs)) = [1..<Suc (creations cs)] \<and>
    unat (chitCounter (run deployed cs)) = creations cs \<and>
    (createChit e t d ta ia pl dl (run deployed cs) = Inl err \<longrightarrow>
       run deployed (cs @ [CreateChit e t d ta ia pl dl]) = run deployed cs \<and>
       created_ids (log deployed (cs @ [CreateChit e t d ta ia pl dl])) =
         created_ids (log deployed cs))"
  using unat_created_ids [OF assms] unat_counter [OF assms]
  by (simp add: run_snoc log_snoc after_def emitted_def)

theorem created_ids_consecutive_witness:
  "creations demo < 2 ^ 256 \<and>
   map unat (created_ids (log deployed demo)) = [1, 2] \<and>
   createChit \<lparr>sender = bob, timestamp = 110\<rparr> ''Late'' ''Past'' 1 1 1 50 (run deployed demo)
     = Inl Deadline_not_in_future \<and>
   chitCounter (run deployed (demo @ [late_create])) = 2"
proof -
  have less: "creations demo < 2 ^ 256"
    by (simp add: demo_creations)
  have failed: "createChit \<lparr>sender = bob, timestamp = 110\<rparr> ''Late'' ''Past'' 1 1 1 50
      (run deployed demo) = Inl Deadline_not_in_future"
    by (simp add: createChit_def)
  from created_ids_consecutive [OF less, where e = "\<lparr>sender = bob, timestamp = 110\<rparr>"
      and t = "''Late''" and d = "''Past''" and ta = 1 and ia = 1 and pl = 1 and dl = 50
      and err = Deadline_not_in_future] less failed
  show ?thesis
    by (simp add: demo_creations demo_counter late_create_def numeral_2_eq_2 numeral_3_eq_3)
qed

text \<open>
  C4. In a run with fewer than \<open>2 ^ 256\<close> successful creations, the array of
  participants of every record is no longer than its \<open>participantLimit\<close>, the members
  the run admitted to a pool are at most as many as its limit, and a join to an existing,
  open pool that is at capacity fails with \<open>Full\<close>.
\<close>

theorem capacity_bound:
  assumes "creations cs < 2 ^ 256"
  shows "length (participants (chits (run deployed cs) p))
      \<le> unat (participantLimit (chits (run deployed cs) p)) \<and>
    card (set (members_of p (log deployed cs)))
      \<le> unat (participantLimit (chits (run deployed cs) p)) \<and>
    (id_chit (chits (run deployed cs) p) \<noteq> 0 \<and>
     timestamp e < deadline (chits (run deployed cs) p) \<and>
     length (participants (chits (run deployed cs) p))
       = unat (participantLimit (chits (run deployed cs) p)) \<longrightarrow>
       joinChit e p (run deployed cs) = Inl Chit_is_full \<and>
       fails_with (joinChit e p (run deployed cs)) Full)"
proof -
  let ?c = "chits (run deployed cs) p"
  have len: "length (participants ?c) \<le> unat (participantLimit ?c)"
    by (rule well_formed_bounds(1) [OF well_formed_run [OF assms]])
  have "card (set (members_of p (log deployed cs))) \<le> length (members_of p (log deployed cs))"
    by (rule card_length)
  with len have "card (set (members_of p (log deployed cs))) \<le> unat (participantLimit ?c)"
    by (simp add: participants_of_log)
  with len show ?thesis
    by (simp add: joinChit_def fails_with_def Let_def)
qed

theorem capacity_bound_witness:
  "creations demo < 2 ^ 256 \<and>
   length (participants (chits (run deployed demo) 1)) = 2 \<and>
   unat (participantLimit (chits (run deployed demo) 1)) = 2 \<and>
   card (set (members_of 1 (log deployed demo))) \<le> 2 \<and>
   id_chit (chits (run deployed demo) 1) \<noteq> 0 \<and>
   130 < deadline (chits (run deployed demo) 1) \<and>
   joinChit \<lparr>sender = carol, timestamp = 130\<rparr> 1 (run deployed demo) = Inl Chit_is_full"
proof -
  have less: "creations demo < 2 ^ 256"
    by (simp add: demo_creations)
  from capacity_bound [OF less, where p = 1 and e = "\<lparr>sender = carol, timestamp = 130\<rparr>"] less
  show ?thesis
    by (simp add: demo_gold gold_def)
qed

text \<open>
  C5. After every sequence of calls the membership index agrees with the pool store:
  \<open>userChits[m]\<close> contains the id \<open>p\<close> if and only if \<open>m\<close> is among
  \<open>chits[p].participants\<close>.
\<close>

theorem membership_index_consistent:
  "p \<in> set (userChits (run deployed cs) m) \<longleftrightarrow>
   m \<in> set (participants (chits (run deployed cs) p))"
  by (rule index_of_run)

text \<open>
  C6. A join to an existing, open pool that is not full, by a sender who is among its
  participants, fails with \<open>AlreadyJoined\<close>; the creator of the pool is such a sender;
  and in a run with fewer than \<open>2 ^ 256\<close> successful creations no address is twice in
  the participants of a pool.
\<close>

theorem duplicate_join_rejected:
  "(id_chit (chits s p) \<noteq> 0 \<and> timestamp e < deadline (chits s p) \<and>
    length (participants (chits s p)) < unat (participantLimit (chits s p)) \<and>
    sender e \<in> set (participants (chits s p)) \<longrightarrow>
      joinChit e p s = Inl Already_joined \<and> fails_with (joinChit e p s) AlreadyJoined) \<and>
   (creations cs < 2 ^ 256 \<and> ChitCreated p t ta pl (sender e) \<in> set (log deployed cs) \<and>
    timestamp e < deadline (chits (run deployed cs) p) \<and>
    length (participants (chits (run deployed cs) p))
      < unat (participantLimit (chits (run deployed cs) p)) \<longrightarrow>
      joinChit e p (run deployed cs) = Inl Already_joined) \<and>
   (creations cs < 2 ^ 256 \<longrightarrow> distinct (participants (chits (run deployed cs) p)))"
proof -
  have member: "joinChit e p s = Inl Already_joined \<and> fails_with (joinChit e p s) AlreadyJoined"
    if "id_chit (chits s p) \<noteq> 0" "timestamp e < deadline (chits s p)"
      "length (participants (chits s p)) < unat (participantLimit (chits s p))"
      "sender e \<in> set (participants (chits s p))" for s
    using that by (simp add: joinChit_def fails_with_def Let_def isParticipant_set)
  have creator: "joinChit e p (run deployed cs) = Inl Already_joined"
    if less: "creations cs < 2 ^ 256"
      and ev: "ChitCreated p t ta pl (sender e) \<in> set (log deployed cs)"
      and "timestamp e < deadline (chits (run deployed cs) p)"
      and "length (participants (chits (run deployed cs) p))
        < unat (participantLimit (chits (run deployed cs) p))"
  proof -
    from ev have "p \<in> set (created_ids (log deployed cs))"
      by (rule created_ids_of_ChitCreated)
    then have "id_chit (chits (run deployed cs) p) \<noteq> 0"
      by (simp add: exists_iff_created [OF less])
    moreover from creator_first [OF less ev]
    have "sender e \<in> set (participants (chits (run deployed cs) p))"
      by (auto simp: participants_of_log)
    ultimately show ?thesis
      using that(3,4) member by blast
  qed
  have "distinct (participants (chits (run deployed cs) p))" if "creations cs < 2 ^ 256"
    by (rule well_formed_bounds(2) [OF well_formed_run [OF that]])
  with member creator show ?thesis
    by blast
qed

text \<open>bob created the second pool of the scenario, for three, and cannot join it.\<close>

theorem duplicate_join_rejected_witness:
  "creations demo < 2 ^ 256 \<and>
   ChitCreated 2 ''Silver'' 500 3 bob \<in> set (log deployed demo) \<and>
   id_chit (chits (run deployed demo) 2) \<noteq> 0 \<and>
   150 < deadline (chits (run deployed demo) 2) \<and>
   length (participants (chits (run deployed demo) 2))
     < unat (participantLimit (chits (run deployed demo) 2)) \<and>
   bob \<in> set (participants (chits (run deployed demo) 2)) \<and>
   joinChit \<lparr>sender = bob, timestamp = 150\<rparr> 2 (run deployed demo) = Inl Already_joined \<and>
   distinct (participants (chits (run deployed demo) 1))"
proof -
  have less: "creations demo < 2 ^ 256"
    by (simp add: demo_creations)
  from duplicate_join_rejected [where s = "run deployed demo" and cs = demo and p = 2
      and e = "\<lparr>sender = bob, timestamp = 150\<rparr>" and t = "''Silver''" and ta = 500 and pl = 3]
    duplicate_join_rejected [where s = "run deployed demo" and cs = demo and p = 1
      and e = "\<lparr>sender = bob, timestamp = 150\<rparr>" and t = "''Silver''" and ta = 500 and pl = 3]
    less
  show ?thesis
    by (simp add: demo_log demo_silver silver_def)
qed

text \<open>
  C7, as the contract has it. \<open>createChit\<close> fails with \<open>InvalidInput\<close> exactly when the
  title or the description is empty or one of \<open>totalAmount\<close>, \<open>installmentAmount\<close> and
  \<open>participantLimit\<close> is zero; it fails with \<open>InvalidDeadline\<close> exactly when none of
  these holds and the deadline is not after the current time. A failed call leaves the
  storage as it was. Otherwise, after a run in which it is not the \<open>2 ^ 256\<close>th
  successful creation, the call succeeds, advances the counter by one, and stores under
  the new id a record with the given terms, \<open>createdAt\<close> the current time and the
  sender as the only participant, and appends the id to the sender's index.
\<close>

theorem createChit_outcomes:
  "(fails_with (createChit e t d ta ia pl dl s) InvalidInput \<longleftrightarrow>
      t = [] \<or> d = [] \<or> ta \<le> 0 \<or> ia \<le> 0 \<or> pl \<le> 0) \<and>
   (fails_with (createChit e t d ta ia pl dl s) InvalidDeadline \<longleftrightarrow>
      \<not> (t = [] \<or> d = [] \<or> ta \<le> 0 \<or> ia \<le> 0 \<or> pl \<le> 0) \<and> dl \<le> timestamp e) \<and>
   (createChit e t d ta ia pl dl s = Inl err \<longrightarrow> after s (CreateChit e t d ta ia pl dl) = s) \<and>
   (Suc (creations cs) < 2 ^ 256 \<and>
    \<not> (t = [] \<or> d = [] \<or> ta \<le> 0 \<or> ia \<le> 0 \<or> pl \<le> 0) \<and> timestamp e < dl \<longrightarrow>
      (\<exists>s'. createChit e t d ta ia pl dl (run deployed cs) =
              Inr (s', ChitCreated (chitCounter (run deployed cs) + 1) t ta pl (sender e)) \<and>
            chitCounter s' = chitCounter (run deployed cs) + 1 \<and>
            chits s' (chitCounter (run deployed cs) + 1) =
              \<lparr>id_chit = chitCounter (run deployed cs) + 1, title = t, description = d,
               totalAmount = ta, installmentAmount = ia, deadline = dl,
               createdAt = timestamp e, participantLimit = pl, participants = [sender e],
               isCompleted = False\<rparr> \<and>
            userChits s' (sender e) =
              userChits (run deployed cs) (sender e) @ [chitCounter (run deployed cs) + 1]))"
proof -
  have input: "fails_with (createChit e t d ta ia pl dl s) InvalidInput \<longleftrightarrow>
      t = [] \<or> d = [] \<or> ta \<le> 0 \<or> ia \<le> 0 \<or> pl \<le> 0"
    by (simp add: createChit_def fails_with_def Let_def word_gt_0)
  have late: "fails_with (createChit e t d ta ia pl dl s) InvalidDeadline \<longleftrightarrow>
      \<not> (t = [] \<or> d = [] \<or> ta \<le> 0 \<or> ia \<le> 0 \<or> pl \<le> 0) \<and> dl \<le> timestamp e"
    by (auto simp: createChit_def fails_with_def Let_def word_gt_0 not_less)
  have revert: "after s (CreateChit e t d ta ia pl dl) = s"
    if "createChit e t d ta ia pl dl s = Inl err"
    using that by (simp add: after_def)
  have stored: "\<exists>s'. createChit e t d ta ia pl dl (run deployed cs) =
              Inr (s', ChitCreated (chitCounter (run deployed cs) + 1) t ta pl (sender e)) \<and>
            chitCounter s' = chitCounter (run deployed cs) + 1 \<and>
            chits s' (chitCounter (run deployed cs) + 1) =
              \<lparr>id_chit = chitCounter (run deployed cs) + 1, title = t, description = d,
               totalAmount = ta, installmentAmount = ia, deadline = dl,
               createdAt = timestamp e, participantLimit = pl, participants = [sender e],
               isCompleted = False\<rparr> \<and>
            userChits s' (sender e) =
              userChits (run deployed cs) (sender e) @ [chitCounter (run deployed cs) + 1]"
    if bound: "Suc (creations cs) < 2 ^ 256"
      and valid: "\<not> (t = [] \<or> d = [] \<or> ta \<le> 0 \<or> ia \<le> 0 \<or> pl \<le> 0)"
      and future: "timestamp e < dl"
  proof -
    let ?s = "run deployed cs"
    have "creations cs < 2 ^ 256"
      using bound by simp
    then have wf: "well_formed ?s"
      by (rule well_formed_run)
    have "chitCounter ?s \<noteq> - 1"
      by (rule counter_not_max [OF bound])
    with wf have fresh: "chits ?s (chitCounter ?s + 1) = zero_Chit"
      by (rule well_formed_fresh)
    from valid have "t \<noteq> []" "d \<noteq> []" "0 < ta" "0 < ia" "0 < pl"
      by (simp_all add: word_gt_0)
    from createChit_valid [OF this future, of ?s] fresh show ?thesis
      by (simp add: zero_Chit_def)
  qed
  from input late revert stored show ?thesis
    by blast
qed

text \<open>
  In the scenario, the creation with a past deadline fails and changes nothing, and the
  creation by bob that follows it stores the second pool.
\<close>

theorem createChit_outcomes_witness:
  "fails_with (createChit \<lparr>sender = bob, timestamp = 110\<rparr> ''Late'' ''Past'' 1 1 1 50
     (run deployed demo)) InvalidDeadline \<and>
   after (run deployed demo) late_create = run deployed demo \<and>
   fails_with (createChit \<lparr>sender = bob, timestamp = 110\<rparr> [] ''Past'' 1 1 1 50
     (run deployed demo)) InvalidInput \<and>
   Suc (creations demo) < 2 ^ 256 \<and>
   (\<exists>s'. createChit \<lparr>sender = carol, timestamp = 200\<rparr> ''Iron'' ''Daily'' 30 3 5 900
            (run deployed demo) = Inr (s', ChitCreated 3 ''Iron'' 30 5 carol) \<and>
         chits s' 3 = \<lparr>id_chit = 3, title = ''Iron'', description = ''Daily'',
            totalAmount = 30, installmentAmount = 3, deadline = 900, createdAt = 200,
            participantLimit = 5, participants = [carol], isCompleted = False\<rparr>)"
proof -
  have bound: "Suc (creations demo) < 2 ^ 256"
    by (simp add: demo_creations)
  have failed: "createChit \<lparr>sender = bob, timestamp = 110\<rparr> ''Late'' ''Past'' 1 1 1 50
      (run deployed demo) = Inl Deadline_not_in_future"
    by (simp add: createChit_def)
  from createChit_outcomes [where s = "run deployed demo" and cs = demo
      and e = "\<lparr>sender = bob, timestamp = 110\<rparr>" and t = "''Late''" and d = "''Past''"
      and ta = 1 and ia = 1 and pl = 1 and dl = 50 and err = Deadline_not_in_future]
    createChit_outcomes [where s = "run deployed demo" and cs = demo
      and e = "\<lparr>sender = bob, timestamp = 110\<rparr>" and t = "[]" and d = "''Past''"
      and ta = 1 and ia = 1 and pl = 1 and dl = 50 and err = Title_required]
    createChit_outcomes [where s = "run deployed demo" and cs = demo
      and e = "\<lparr>sender = carol, timestamp = 200\<rparr>" and t = "''Iron''" and d = "''Daily''"
      and ta = 30 and ia = 3 and pl = 5 and dl = 900 and err = Title_required]
    bound failed
  show ?thesis
    by (auto simp: demo_counter late_create_def)
qed

text \<open>
  C7, as the claim has it, fails: with an empty title and a deadline that is not after the
  current time, \<open>createChit\<close> fails with \<open>InvalidInput\<close>, not with \<open>InvalidDeadline\<close>.
\<close>

theorem createChit_deadline_counterexample:
  "\<not> (50 :: uint256) > 100 \<and>
   createChit \<lparr>sender = alice, timestamp = 100\<rparr> [] ''Past'' 1 1 1 50 deployed
     = Inl Title_required \<and>
   \<not> fails_with (createChit \<lparr>sender = alice, timestamp = 100\<rparr> [] ''Past'' 1 1 1 50 deployed)
       InvalidDeadline"
  by (simp add: createChit_def fails_with_def)

text \<open>
  C8. After a run with \<open>N\<close> successful creations, \<open>N\<close> below \<open>2 ^ 64\<close> (the longest
  memory array that \<open>getChits\<close> can allocate has \<open>2 ^ 64 - 1\<close> elements),
  \<open>getChits\<close> returns \<open>N\<close> records: the records stored under the ids 1 to \<open>N\<close>, in
  this order, and the record at position \<open>k\<close> carries the id \<open>k\<close>.
\<close>

theorem getChits_lists_all:
  assumes "creations cs < 2 ^ 64"
  shows "getChits (run deployed cs) =
      Inr (map (\<lambda>k. chits (run deployed cs) (of_nat k)) [1..<Suc (creations cs)]) \<and>
    (\<forall>l. getChits (run deployed cs) = Inr l \<longrightarrow> length l = creations cs \<and>
       (\<forall>i < creations cs. unat (id_chit (l ! i)) = Suc i))"
proof -
  let ?s = "run deployed cs" and ?N = "creations cs"
  let ?l = "map (\<lambda>k. chits ?s (of_nat k)) [1..<Suc ?N]"
  have "(2 :: nat) ^ 64 \<le> 2 ^ 256"
    by (rule power_increasing) simp_all
  with assms have less: "?N < 2 ^ 256"
    by (rule less_le_trans)
  have N: "unat (chitCounter ?s) = ?N"
    by (rule unat_counter [OF less])
  have wf: "well_formed ?s"
    by (rule well_formed_run [OF less])
  have "unat (chitCounter ?s) < 2 ^ 64"
    using assms by (simp only: N)
  then have "getChits ?s =
      Inr (map (\<lambda>k. chits ?s (of_nat k)) [1..<Suc (unat (chitCounter ?s))])"
    by (rule getChits_result)
  then have result: "getChits ?s = Inr ?l"
    by (simp only: N)
  have "unat (id_chit (?l ! i)) = Suc i" if i: "i < ?N" for i
  proof -
    let ?p = "of_nat (Suc i) :: uint256"
    from i less have "Suc i < 2 ^ 256"
      by simp
    then have p: "unat ?p = Suc i"
      by (simp only: unat_of_nat_uint256)
    with i N have "0 < ?p" "?p \<le> chitCounter ?s"
      by (simp_all add: word_le_nat_alt word_less_nat_alt del: of_nat_Suc)
    with wf have "id_chit (chits ?s ?p) = ?p"
      by (rule well_formed_id)
    moreover have "?l ! i = chits ?s ?p"
      using i by (simp del: upt_Suc of_nat_Suc)
    ultimately show ?thesis
      using p by (simp only:)
  qed
  with result show ?thesis
    by (simp del: upt_Suc of_nat_Suc)
qed

theorem getChits_lists_all_witness:
  "creations demo < 2 ^ 64 \<and> getChits (run deployed demo) = Inr [gold, silver]"
proof -
  have bound: "creations demo < 2 ^ 64"
    by (simp add: demo_creations)
  from getChits_lists_all [OF bound] bound show ?thesis
    by (simp add: demo_creations demo_gold demo_silver numeral_2_eq_2 numeral_3_eq_3)
qed

text \<open>
  C9. In a run with fewer than \<open>2 ^ 256\<close> successful creations, a record that exists
  keeps its id, title, description, amounts, deadline, creation time, limit and
  completion flag through every later call, and its participants only grow at the end;
  the first participant of a pool is the sender of the creation that was given its id;
  and a call of \<open>joinChit\<close> for one pool leaves the record of every other pool as it was
  and changes the pool it names by appending to its participants at most.
\<close>

theorem pool_terms_fixed:
  assumes "creations (cs @ ds) < 2 ^ 256"
  shows "(id_chit (chits (run deployed cs) p) \<noteq> 0 \<longrightarrow>
       same_terms (chits (run deployed cs) p) (chits (run deployed (cs @ ds)) p) \<and>
       prefix (participants (chits (run deployed cs) p))
              (participants (chits (run deployed (cs @ ds)) p))) \<and>
    (ChitCreated p t ta pl a \<in> set (log deployed cs) \<longrightarrow>
       participants (chits (run deployed (cs @ ds)) p) \<noteq> [] \<and>
       participants (chits (run deployed (cs @ ds)) p) ! 0 = a) \<and>
    (p \<noteq> q \<longrightarrow> chits (after s (JoinChit e q)) p = chits s p) \<and>
    same_terms (chits s q) (chits (after s (JoinChit e q)) q) \<and>
    prefix (participants (chits s q)) (participants (chits (after s (JoinChit e q)) q))"
proof -
  have creator: "participants (chits (run deployed (cs @ ds)) p) \<noteq> [] \<and>
      participants (chits (run deployed (cs @ ds)) p) ! 0 = a"
    if "ChitCreated p t ta pl a \<in> set (log deployed cs)"
  proof -
    from that have "ChitCreated p t ta pl a \<in> set (log deployed (cs @ ds))"
      by (simp add: log_append)
    from creator_first [OF assms this] show ?thesis
      by (auto simp: participants_of_log)
  qed
  have join: "chits (after s (JoinChit e q)) p =
      (if p = q \<and> (\<exists>r. joinChit e q s = Inr r)
       then (chits s p)\<lparr>participants := participants (chits s p) @ [sender e]\<rparr>
       else chits s p)" for p
  proof (cases "joinChit e q s")
    case (Inl err)
    then show ?thesis
      by (simp add: after_def)
  next
    case (Inr r)
    obtain s' ev where r: "r = (s', ev)"
      by (cases r)
    from frame_joinChit [OF Inr [unfolded r], of p] Inr r show ?thesis
      by (simp add: after_def)
  qed
  have other: "chits (after s (JoinChit e q)) p = chits s p" if "p \<noteq> q"
    using that join [of p] by simp
  have same: "same_terms (chits s q) (chits (after s (JoinChit e q)) q)"
    using join [of q] by (simp add: same_terms_def)
  have grow: "prefix (participants (chits s q)) (participants (chits (after s (JoinChit e q)) q))"
    using join [of q] by simp
  from frame_run [OF assms] creator other same grow show ?thesis
    by blast
qed

text \<open>
  The pool of alice before and after the rest of the scenario: its terms are the same,
  bob was appended, and alice is still first. A join to the second pool leaves it alone.
\<close>

theorem pool_terms_fixed_witness:
  "creations (prologue @ sequel) < 2 ^ 256 \<and>
   id_chit (chits (run deployed prologue) 1) \<noteq> 0 \<and>
   ChitCreated 1 ''Gold'' 1000 2 alice \<in> set (log deployed prologue) \<and>
   same_terms (chits (run deployed prologue) 1) (chits (run deployed (prologue @ sequel)) 1) \<and>
   participants (chits (run deployed prologue) 1) = [alice] \<and>
   participants (chits (run deployed (prologue @ sequel)) 1) = [alice, bob] \<and>
   participants (chits (run deployed (prologue @ sequel)) 1) ! 0 = alice \<and>
   chits (after (run deployed demo) (JoinChit \<lparr>sender = carol, timestamp = 150\<rparr> 2)) 1 = gold"
proof -
  have less: "creations (prologue @ sequel) < 2 ^ 256"
    using demo_creations by (simp add: demo_def)
  from pool_terms_fixed [OF less, where p = 1 and t = "''Gold''" and ta = 1000 and pl = 2
      and a = alice and s = "run deployed demo" and q = 2
      and e = "\<lparr>sender = carol, timestamp = 150\<rparr>"] less
  show ?thesis
    using demo_gold by (simp add: prologue_log prologue_gold gold_def demo_def)
qed

text \<open>
  C10. In a run with fewer than \<open>2 ^ 256\<close> successful creations, every id a creation
  was given is at least 1 and the record stored under it carries that id; key 0 was never
  written; and \<open>joinChit\<close> fails its existence test, with \<open>NotFound\<close>, exactly for the
  ids that no creation was given, 0 among them.
\<close>

theorem allocated_ids_exist:
  assumes "creations cs < 2 ^ 256"
  shows "(p \<in> set (created_ids (log deployed cs)) \<longrightarrow>
            id_chit (chits (run deployed cs) p) = p \<and> 1 \<le> p) \<and>
    chits (run deployed cs) 0 = zero_Chit \<and>
    (joinChit e p (run deployed cs) = Inl Chit_does_not_exist \<longleftrightarrow>
       p \<notin> set (created_ids (log deployed cs))) \<and>
    (fails_with (joinChit e p (run deployed cs)) NotFound \<longleftrightarrow>
       p \<notin> set (created_ids (log deployed cs))) \<and>
    joinChit e 0 (run deployed cs) = Inl Chit_does_not_exist"
proof -
  let ?s = "run deployed cs"
  have wf: "well_formed ?s"
    by (rule well_formed_run [OF assms])
  have zero: "chits ?s 0 = zero_Chit"
    by (rule well_formed_zero [OF wf])
  have ex: "id_chit (chits ?s p) \<noteq> 0 \<longleftrightarrow> p \<in> set (created_ids (log deployed cs))"
    by (rule exists_iff_created [OF assms])
  have "id_chit (chits ?s p) = p \<and> 1 \<le> p" if "p \<in> set (created_ids (log deployed cs))"
  proof -
    from that have p: "0 < p" "p \<le> chitCounter ?s"
      using created_set [OF assms, of p] by simp_all
    from well_formed_id [OF wf p] p(1) show ?thesis
      by (simp add: word_le_nat_alt word_less_nat_alt)
  qed
  moreover have "joinChit e p ?s = Inl Chit_does_not_exist \<longleftrightarrow> id_chit (chits ?s p) = 0"
    by (simp add: joinChit_def Let_def)
  moreover have "fails_with (joinChit e p ?s) NotFound \<longleftrightarrow> id_chit (chits ?s p) = 0"
    using joinChit_fails_with [of e p ?s NotFound] by simp
  moreover have "joinChit e 0 ?s = Inl Chit_does_not_exist"
    using zero by (simp add: joinChit_def Let_def zero_Chit_def)
  ultimately show ?thesis
    using zero ex by blast
qed

theorem allocated_ids_exist_witness:
  "creations demo < 2 ^ 256 \<and>
   2 \<in> set (created_ids (log deployed demo)) \<and>
   id_chit (chits (run deployed demo) 2) = 2 \<and>
   7 \<notin> set (created_ids (log deployed demo)) \<and>
   joinChit \<lparr>sender = carol, timestamp = 130\<rparr> 7 (run deployed demo) = Inl Chit_does_not_exist \<and>
   joinChit \<lparr>sender = carol, timestamp = 130\<rparr> 0 (run deployed demo) = Inl Chit_does_not_exist"
proof -
  have less: "creations demo < 2 ^ 256"
    by (simp add: demo_creations)
  from allocated_ids_exist [OF less, where p = 2 and e = "\<lparr>sender = carol, timestamp = 130\<rparr>"]
    allocated_ids_exist [OF less, where p = 7 and e = "\<lparr>sender = carol, timestamp = 130\<rparr>"]
    less
  show ?thesis
    by (simp add: demo_log)
qed

end
